theory Spec2Isabelle
  imports Complex_Main
begin

section \<open>reel2yt: scoring, fusion and selection\<close>

text \<open>
  The development follows \<^verbatim>\<open>app/core/fingerprint.py\<close> and
  \<^verbatim>\<open>app/services/matcher.py\<close>. A finite Python float is read as the real number it
  denotes, and comparisons are exact. The arithmetic of \<open>fuse_scores\<close> is rounded to double
  precision, operation by operation; the other arithmetic is taken exactly.
  Exceptions are values of \<open>py_error\<close>, returned on the left of a sum.
\<close>

datatype py_error = ValueError | TypeError | AttributeError

subsection \<open>Score records (fingerprint.py, matcher.py)\<close>

record FrameMatchStats =
  median :: real
  mean :: real
  p25 :: real
  p75 :: real
  match_frac :: real
  score :: real

record CombinedScore =
  frames :: FrameMatchStats
  audio :: real
  fused :: real

record CandidateScore =
  video_id :: string
  url :: string
  title :: string
  channel :: "string option"
  yt_duration :: "real option"
  frame_median :: real
  frame_match_frac :: real
  frame_score :: real
  audio_score :: real
  fused_score :: real
  title_ratio :: real
  reason :: string

subsection \<open>Double-precision arithmetic\<close>

text \<open>
  A Python float is an IEEE 754 binary64 value. \<open>fl\<close> rounds a real number to the nearest
  such value, ties to the even significand: the significand has 53 bits, and below
  \<open>2 powr - 1022\<close> the spacing stays at \<open>2 powr - 1074\<close> (subnormal numbers). The product
  and the sum of two floats are the exact result rounded by \<open>fl\<close>, and a decimal literal
  such as \<^verbatim>\<open>0.7\<close> is \<open>fl (7 / 10)\<close>. Infinities and NaN are not values of the model,
  and overflow is not modelled.
\<close>

definition round_half_even :: "real \<Rightarrow> int" where
  "round_half_even t =
     (let f = \<lfloor>t\<rfloor>; r = t - of_int f
      in if r < 1 / 2 then f else if 1 / 2 < r then f + 1 else if even f then f else f + 1)"

definition binade :: "real \<Rightarrow> int" where
  "binade x = max \<lfloor>log 2 \<bar>x\<bar>\<rfloor> (- 1022)"

definition ulp :: "real \<Rightarrow> real" where
  "ulp x = 2 powr (of_int (binade x) - 52)"

definition fl :: "real \<Rightarrow> real" where
  "fl x = (if x = 0 then 0 else of_int (round_half_even (x / ulp x)) * ulp x)"

definition fl_mul :: "real \<Rightarrow> real \<Rightarrow> real" where
  "fl_mul x y = fl (x * y)"

definition fl_add :: "real \<Rightarrow> real \<Rightarrow> real" where
  "fl_add x y = fl (x + y)"

subsection \<open>fuse_scores (fingerprint.py)\<close>

text \<open>
  The source computes \<^verbatim>\<open>0.7 * frame_stats.score + 0.3 * audio_sim\<close>: two rounded
  products, then a rounded sum.
\<close>

definition fuse_scores :: "FrameMatchStats \<Rightarrow> real \<Rightarrow> CombinedScore" where
  "fuse_scores frame_stats audio_sim =
     (if audio_sim > 0
      then \<lparr>frames = frame_stats, audio = audio_sim,
            fused = fl_add (fl_mul (fl (7 / 10)) (score frame_stats))
                           (fl_mul (fl (3 / 10)) audio_sim)\<rparr>
      else \<lparr>frames = frame_stats, audio = audio_sim, fused = score frame_stats\<rparr>)"

subsection \<open>The duration gate and the selector (matcher.py)\<close>

text \<open>
  \<^verbatim>\<open>if not yt_dur: return True\<close> is taken by \<^verbatim>\<open>None\<close> and by a duration of zero
  alike: both are falsy in Python.
\<close>

definition duration_ok :: "real \<Rightarrow> real option \<Rightarrow> bool" where
  "duration_ok ig_dur yt_dur =
     (case yt_dur of
        None \<Rightarrow> True
      | Some y \<Rightarrow>
          if y = 0 then True
          else (let dd = \<bar>ig_dur - y\<bar>
                in if ig_dur \<le> 60 then dd \<le> 8
                   else if ig_dur \<le> 180 then dd \<le> 12
                   else dd \<le> 20))"

definition pick_best :: "CandidateScore list \<Rightarrow> CandidateScore option" where
  "pick_best scored =
     (case scored of
        [] \<Rightarrow> None
      | top_c # _ \<Rightarrow>
          if fused_score top_c \<ge> 0.62 \<and> frame_match_frac top_c \<ge> 0.55 then Some top_c
          else None)"

subsection \<open>Perceptual hashes (fingerprint.py over the imagehash library)\<close>

text \<open>
  An \<^verbatim>\<open>ImageHash\<close> holds a boolean array; its flattened form is a list of bits.
  \<^verbatim>\<open>_hash_image\<close> writes a hash of \<^verbatim>\<open>_HASH_SIZE = 8\<close> as 16 hexadecimal digits, and
  \<^verbatim>\<open>hex_to_hash\<close> is modelled on such strings: digit by digit, four bits each, most
  significant first. Any other string is outside what the program stores and is reported
  as \<open>ValueError\<close>. Subtraction of two hashes raises \<^verbatim>\<open>TypeError\<close> on arrays of
  different size and counts the differing positions otherwise.
\<close>

type_synonym ImageHash = "bool list"

definition hex_digit :: "char \<Rightarrow> nat option" where
  "hex_digit c =
     (let n = (of_char c :: nat)
      in if 48 \<le> n \<and> n \<le> 57 then Some (n - 48)
         else if 97 \<le> n \<and> n \<le> 102 then Some (n - 87)
         else if 65 \<le> n \<and> n \<le> 70 then Some (n - 55)
         else None)"

definition nibble :: "nat \<Rightarrow> bool list" where
  "nibble v = [odd (v div 8), odd (v div 4), odd (v div 2), odd v]"

definition hex_to_hash :: "string \<Rightarrow> py_error + ImageHash" where
  "hex_to_hash hx =
     (if length hx \<noteq> 16 then Inl ValueError
      else case those (map hex_digit hx) of
             None \<Rightarrow> Inl ValueError
           | Some ds \<Rightarrow> Inr (concat (map nibble ds)))"

definition count_differing :: "ImageHash \<Rightarrow> ImageHash \<Rightarrow> nat" where
  "count_differing a b = length (filter (\<lambda>(x, y). x \<noteq> y) (zip a b))"

definition hamming :: "ImageHash \<Rightarrow> ImageHash \<Rightarrow> py_error + nat" where
  "hamming a b =
     (if length a \<noteq> length b then Inl TypeError else Inr (count_differing a b))"

definition is_phash64 :: "string \<Rightarrow> bool" where
  "is_phash64 hx \<longleftrightarrow> length hx = 16 \<and> list_all (\<lambda>c. hex_digit c \<noteq> None) hx"

text \<open>A list comprehension or generator whose body may raise stops at the first exception.\<close>

fun traverse :: "('a \<Rightarrow> py_error + 'b) \<Rightarrow> 'a list \<Rightarrow> py_error + 'b list" where
  "traverse f [] = Inr []"
| "traverse f (x # xs) =
     (case f x of
        Inl e \<Rightarrow> Inl e
      | Inr y \<Rightarrow> (case traverse f xs of Inl e \<Rightarrow> Inl e | Inr ys \<Rightarrow> Inr (y # ys)))"

subsection \<open>The numpy reductions used by frame_similarity_score\<close>

text \<open>
  All of them are called on a non-empty array only: \<open>frame_similarity_score\<close> returns
  before them when a side is empty. \<open>np_percentile\<close> is numpy's default, linear
  interpolation between the two neighbours of position \<open>q / 100 * (n - 1)\<close>.
\<close>

definition np_median :: "real list \<Rightarrow> real" where
  "np_median arr =
     (let s = sort arr; n = length s
      in if odd n then s ! (n div 2) else (s ! (n div 2 - 1) + s ! (n div 2)) / 2)"

definition np_mean :: "real list \<Rightarrow> real" where
  "np_mean arr = sum_list arr / real (length arr)"

definition np_percentile :: "real list \<Rightarrow> real \<Rightarrow> real" where
  "np_percentile arr q =
     (let s = sort arr; n = length s;
          pos = q / 100 * real (n - 1);
          lo = nat \<lfloor>pos\<rfloor>;
          hi = min (lo + 1) (n - 1);
          g = pos - real lo
      in s ! lo + g * (s ! hi - s ! lo))"

definition mean_le :: "real list \<Rightarrow> int \<Rightarrow> real" where
  "mean_le arr t = real (length (filter (\<lambda>x. x \<le> real_of_int t) arr)) / real (length arr)"

subsection \<open>frame_similarity_score (fingerprint.py)\<close>

record CFG =
  hash_threshold :: int

definition min_hamming :: "ImageHash \<Rightarrow> ImageHash list \<Rightarrow> py_error + nat" where
  "min_hamming ha B =
     (case traverse (hamming ha) B of Inl e \<Rightarrow> Inl e | Inr ds \<Rightarrow> Inr (Min (set ds)))"

definition frame_stats :: "real list \<Rightarrow> int \<Rightarrow> FrameMatchStats" where
  "frame_stats arr t =
     (let med = np_median arr;
          mf = mean_le arr t;
          closeness = max 0 (1 - med / 64)
      in \<lparr>median = med, mean = np_mean arr,
          p25 = np_percentile arr 25, p75 = np_percentile arr 75,
          match_frac = mf, score = 0.6 * mf + 0.4 * closeness\<rparr>)"

definition frame_similarity_score ::
  "CFG \<Rightarrow> string list \<Rightarrow> string list \<Rightarrow> int option \<Rightarrow> py_error + FrameMatchStats" where
  "frame_similarity_score cfg hashes_a hashes_b threshold =
     (let t = (case threshold of Some v \<Rightarrow> v | None \<Rightarrow> hash_threshold cfg)
      in if hashes_a = [] \<or> hashes_b = []
         then Inr \<lparr>median = 64, mean = 64, p25 = 64, p75 = 64, match_frac = 0, score = 0\<rparr>
         else case traverse hex_to_hash hashes_a of
                Inl e \<Rightarrow> Inl e
              | Inr A \<Rightarrow>
                  (case traverse hex_to_hash hashes_b of
                     Inl e \<Rightarrow> Inl e
                   | Inr B \<Rightarrow>
                       (case traverse (\<lambda>ha. min_hamming ha B) A of
                          Inl e \<Rightarrow> Inl e
                        | Inr dists \<Rightarrow> Inr (frame_stats (map real dists) t))))"

subsection \<open>cosine and audio_similarity_score (fingerprint.py)\<close>

text \<open>
  \<^verbatim>\<open>np.dot\<close> of two one-dimensional arrays raises \<^verbatim>\<open>ValueError\<close> when their
  lengths differ. \<^verbatim>\<open>not vec\<close> holds for \<^verbatim>\<open>None\<close> and for the empty list.
\<close>

definition np_norm :: "real list \<Rightarrow> real" where
  "np_norm a = sqrt (sum_list (map (\<lambda>x. x * x) a))"

definition np_dot :: "real list \<Rightarrow> real list \<Rightarrow> py_error + real" where
  "np_dot a b =
     (if length a \<noteq> length b then Inl ValueError
      else Inr (sum_list (map (\<lambda>(x, y). x * y) (zip a b))))"

definition cosine :: "real list \<Rightarrow> real list \<Rightarrow> py_error + real" where
  "cosine a b =
     (let da = np_norm a; db = np_norm b
      in if da = 0 \<or> db = 0 then Inr 0
         else case np_dot a b of Inl e \<Rightarrow> Inl e | Inr d \<Rightarrow> Inr (d / (da * db)))"

definition audio_similarity_score ::
  "real list option \<Rightarrow> real list option \<Rightarrow> py_error + real" where
  "audio_similarity_score vec_a vec_b =
     (case vec_a of
        None \<Rightarrow> Inr 0
      | Some a \<Rightarrow>
          (case vec_b of
             None \<Rightarrow> Inr 0
           | Some b \<Rightarrow>
               if a = [] \<or> b = [] then Inr 0
               else case cosine a b of
                      Inl e \<Rightarrow> Inl e
                    | Inr c \<Rightarrow> Inr (max 0 (min 1 c))))"

subsection \<open>The frame fingerprint cache (fingerprint.py)\<close>

text \<open>
  A cache file is read through \<^verbatim>\<open>json.loads\<close>: either reading or parsing raises
  (\<open>Corrupt\<close>), or the text parses to a JSON value (\<open>Parsed\<close>), which need not be an
  object. An object is held as the list of its items. \<open>world\<close> is the disk below the
  fingerprint directory together with the log of frame extractions that were run, by
  signature. The hashes that extraction yields for the video are the parameter \<open>extracted\<close>.
\<close>

datatype json = JNull | JBool bool | JNum real | JStr string | JArr "json list"
  | JObj "(string \<times> json) list"

datatype stored = Corrupt | Parsed json

record world =
  disk :: "string \<Rightarrow> stored option"
  extract_log :: "string list"

definition VER :: string where
  "VER = ''fp_v1''"

fun truthy :: "json \<Rightarrow> bool" where
  "truthy JNull = False"
| "truthy (JBool b) = b"
| "truthy (JNum x) = (x \<noteq> 0)"
| "truthy (JStr s) = (s \<noteq> [])"
| "truthy (JArr xs) = (xs \<noteq> [])"
| "truthy (JObj kvs) = (kvs \<noteq> [])"

text \<open>\<^verbatim>\<open>data.get(key, default)\<close>: only a dict has the method.\<close>

fun dict_get :: "json \<Rightarrow> string \<Rightarrow> json \<Rightarrow> py_error + json" where
  "dict_get (JObj kvs) k dflt = Inr (case map_of kvs k of None \<Rightarrow> dflt | Some v \<Rightarrow> v)"
| "dict_get _ k dflt = Inl AttributeError"

definition load_json :: "world \<Rightarrow> string \<Rightarrow> json option" where
  "load_json w path =
     (case disk w path of
        None \<Rightarrow> None
      | Some Corrupt \<Rightarrow> None
      | Some (Parsed v) \<Rightarrow> Some v)"

definition save_json :: "world \<Rightarrow> string \<Rightarrow> json \<Rightarrow> world" where
  "save_json w path obj = w\<lparr>disk := (disk w)(path \<mapsto> Parsed obj)\<rparr>"

definition cache_path :: "string \<Rightarrow> string" where
  "cache_path sig = ''frames_'' @ sig @ ''.json''"

definition recompute_frames :: "world \<Rightarrow> string \<Rightarrow> string list \<Rightarrow> json \<times> world" where
  "recompute_frames w sig extracted =
     (let w1 = w\<lparr>extract_log := extract_log w @ [sig]\<rparr>;
          hashes = JArr (map JStr extracted)
      in (hashes,
          save_json w1 (cache_path sig)
            (JObj [(''ver'', JStr VER), (''hashes'', hashes), (''hash_size'', JNum 8)])))"

definition video_to_frame_hashes ::
  "world \<Rightarrow> string \<Rightarrow> string list \<Rightarrow> py_error + json \<times> world" where
  "video_to_frame_hashes w sig extracted =
     (case disk w (cache_path sig) of
        None \<Rightarrow> Inr (recompute_frames w sig extracted)
      | Some _ \<Rightarrow>
          (case load_json w (cache_path sig) of
             None \<Rightarrow> Inr (recompute_frames w sig extracted)
           | Some data \<Rightarrow>
               if \<not> truthy data then Inr (recompute_frames w sig extracted)
               else case dict_get data ''ver'' JNull of
                      Inl e \<Rightarrow> Inl e
                    | Inr v \<Rightarrow>
                        if v = JStr VER
                        then (case dict_get data ''hashes'' (JArr []) of
                                Inl e \<Rightarrow> Inl e
                              | Inr h \<Rightarrow> Inr (h, w))
                        else Inr (recompute_frames w sig extracted)))"

section \<open>Selection policy\<close>

text \<open>
  C1. On a non-empty ranked list, \<open>pick_best\<close> returns the first entry exactly when its fused
  score is at least 0.62 and its frame match fraction is at least 0.55; in every other case,
  the empty list included, it returns no match, whatever the rest of the list holds.
\<close>

theorem pick_best_policy:
  "(pick_best (t # rest) = Some t
      \<longleftrightarrow> (0.62 \<le> fused_score t \<and> 0.55 \<le> frame_match_frac t))
   \<and> (\<not> (0.62 \<le> fused_score t \<and> 0.55 \<le> frame_match_frac t)
      \<longrightarrow> pick_best (t # rest) = None)
   \<and> (\<forall>c. pick_best (t # rest) = Some c \<longrightarrow> c = t)
   \<and> pick_best [] = None"
  by (simp add: pick_best_def)

theorem pick_best_policy_witness:
  "pick_best [\<lparr>video_id = ''a'', url = ''u'', title = ''t'', channel = None, yt_duration = None,
       frame_median = 20, frame_match_frac = 0.5, frame_score = 0.7, audio_score = 0,
       fused_score = 0.7, title_ratio = 0, reason = ''r''\<rparr>] = None
   \<and> pick_best [\<lparr>video_id = ''b'', url = ''u'', title = ''t'', channel = None,
       yt_duration = Some 30, frame_median = 3, frame_match_frac = 0.85, frame_score = 0.8913,
       audio_score = 0.4, fused_score = 0.8239, title_ratio = 0.1, reason = ''r''\<rparr>]
     = Some \<lparr>video_id = ''b'', url = ''u'', title = ''t'', channel = None,
       yt_duration = Some 30, frame_median = 3, frame_match_frac = 0.85, frame_score = 0.8913,
       audio_score = 0.4, fused_score = 0.8239, title_ratio = 0.1, reason = ''r''\<rparr>"
  using
    pick_best_policy [of "\<lparr>video_id = ''a'', url = ''u'', title = ''t'', channel = None,
       yt_duration = None, frame_median = 20, frame_match_frac = 0.5, frame_score = 0.7,
       audio_score = 0, fused_score = 0.7, title_ratio = 0, reason = ''r''\<rparr>" "[]"]
    pick_best_policy [of "\<lparr>video_id = ''b'', url = ''u'', title = ''t'', channel = None,
       yt_duration = Some 30, frame_median = 3, frame_match_frac = 0.85, frame_score = 0.8913,
       audio_score = 0.4, fused_score = 0.8239, title_ratio = 0.1, reason = ''r''\<rparr>" "[]"]
  by simp

section \<open>Fusion\<close>

subsection \<open>Rounding to double precision\<close>

lemma round_half_even_cases:
  "round_half_even t = \<lfloor>t\<rfloor> \<or> round_half_even t = \<lfloor>t\<rfloor> + 1"
  by (simp add: round_half_even_def Let_def)

lemma round_half_even_of_int [simp]: "round_half_even (of_int n) = n"
  by (simp add: round_half_even_def)

lemma round_half_even_error: "\<bar>of_int (round_half_even t) - t\<bar> \<le> 1 / 2"
proof -
  have "of_int \<lfloor>t\<rfloor> \<le> t" "t < of_int \<lfloor>t\<rfloor> + 1" by linarith+
  then show ?thesis by (auto simp add: round_half_even_def Let_def)
qed

lemma round_half_even_mono:
  assumes "t \<le> u"
  shows "round_half_even t \<le> round_half_even u"
proof (cases "\<lfloor>t\<rfloor> = \<lfloor>u\<rfloor>")
  case True
  then show ?thesis using assms by (auto simp add: round_half_even_def Let_def)
next
  case False
  then have "\<lfloor>t\<rfloor> < \<lfloor>u\<rfloor>" using assms floor_mono [OF assms] by linarith
  moreover have "round_half_even t \<le> \<lfloor>t\<rfloor> + 1" using round_half_even_cases [of t] by linarith
  moreover have "\<lfloor>u\<rfloor> \<le> round_half_even u" using round_half_even_cases [of u] by linarith
  ultimately show ?thesis by linarith
qed

lemma round_half_even_uminus: "round_half_even (- t) = - round_half_even t"
proof (cases "t = of_int \<lfloor>t\<rfloor>")
  case True
  then obtain n where "t = of_int n" by blast
  then have "- t = of_int (- n)" by simp
  then show ?thesis using \<open>t = of_int n\<close> by (metis round_half_even_of_int)
next
  case False
  then have lt: "of_int \<lfloor>t\<rfloor> < t" "t < of_int \<lfloor>t\<rfloor> + 1" by linarith+
  then have fl: "\<lfloor>- t\<rfloor> = - \<lfloor>t\<rfloor> - 1" by linarith
  show ?thesis using lt by (auto simp add: round_half_even_def Let_def fl)
qed

lemma ulp_pos [simp]: "0 < ulp x"
  by (simp add: ulp_def)

lemma ulp_neq_0 [simp]: "ulp x \<noteq> 0"
  using ulp_pos [of x] by linarith

lemma ulp_uminus [simp]: "ulp (- x) = ulp x"
  by (simp add: ulp_def binade_def)

lemma fl_uminus: "fl (- x) = - fl x"
  by (simp add: fl_def round_half_even_uminus)

lemma fl_error: "\<bar>fl x - x\<bar> \<le> ulp x / 2"
proof (cases "x = 0")
  case True
  then show ?thesis by (simp add: fl_def less_imp_le)
next
  case False
  have "\<bar>of_int (round_half_even (x / ulp x)) - x / ulp x\<bar> * ulp x \<le> 1 / 2 * ulp x"
    by (intro mult_right_mono round_half_even_error) (simp add: less_imp_le)
  moreover have "\<bar>of_int (round_half_even (x / ulp x)) - x / ulp x\<bar> * ulp x
      = \<bar>of_int (round_half_even (x / ulp x)) * ulp x - x\<bar>"
  proof -
    have "\<bar>of_int (round_half_even (x / ulp x)) - x / ulp x\<bar> * ulp x
        = \<bar>(of_int (round_half_even (x / ulp x)) - x / ulp x) * ulp x\<bar>"
      by (simp add: abs_mult less_imp_le)
    also have "(of_int (round_half_even (x / ulp x)) - x / ulp x) * ulp x
        = of_int (round_half_even (x / ulp x)) * ulp x - x"
      by (simp add: algebra_simps)
    finally show ?thesis .
  qed
  ultimately show ?thesis using False by (simp add: fl_def)
qed

lemma binade_le_0: "\<bar>x\<bar> < 2 \<Longrightarrow> binade x \<le> 0"
proof -
  assume a: "\<bar>x\<bar> < 2"
  have "log 2 \<bar>x\<bar> < 1"
  proof (cases "x = 0")
    case True then show ?thesis by (simp add: log_def)
  next
    case False
    then have "log 2 \<bar>x\<bar> < log 2 2" using a by (subst log_less_cancel_iff) simp_all
    then show ?thesis by simp
  qed
  then have "\<lfloor>log 2 \<bar>x\<bar>\<rfloor> \<le> 0" by linarith
  then show ?thesis by (simp add: binade_def)
qed

lemma ulp_small: "\<bar>x\<bar> < 2 \<Longrightarrow> ulp x \<le> 1 / 2 ^ 52"
proof -
  assume "\<bar>x\<bar> < 2"
  then have "real_of_int (binade x) - 52 \<le> - 52" using binade_le_0 [of x] by simp
  then have "ulp x \<le> 2 powr (- 52)" unfolding ulp_def by (intro powr_mono) simp_all
  also have "(2::real) powr (- 52) = 1 / 2 ^ 52"
    by (simp add: powr_minus inverse_eq_divide)
  finally show ?thesis .
qed

lemma fl_error_small: "\<bar>x\<bar> < 2 \<Longrightarrow> \<bar>fl x - x\<bar> \<le> 1 / 2 ^ 53"
proof -
  assume a: "\<bar>x\<bar> < 2"
  have "\<bar>fl x - x\<bar> \<le> ulp x / 2" by (rule fl_error)
  also have "\<dots> \<le> (1 / 2 ^ 52) / 2" using ulp_small [OF a] by simp
  finally show ?thesis by simp
qed

lemma ulp_scale_52: "2 ^ 52 * ulp x = 2 powr (of_int (binade x))"
proof -
  have "ulp x = 2 powr (of_int (binade x)) / 2 powr 52"
    unfolding ulp_def by (rule powr_diff)
  then show ?thesis by simp
qed

lemma ulp_scale_53: "2 ^ 53 * ulp x = 2 powr (of_int (binade x) + 1)"
proof -
  have "(2::real) ^ 53 * ulp x = 2 * (2 ^ 52 * ulp x)" by simp
  also have "\<dots> = 2 * 2 powr (of_int (binade x))" by (simp only: ulp_scale_52)
  also have "\<dots> = 2 powr (of_int (binade x) + 1)" by (simp add: powr_add)
  finally show ?thesis .
qed

lemma floor_log_bounds:
  assumes "0 < x"
  shows "2 powr (of_int \<lfloor>log 2 x\<rfloor>) \<le> x \<and> x < 2 powr (of_int \<lfloor>log 2 x\<rfloor> + 1)"
  using floor_log_eq_powr_iff [of x 2 "\<lfloor>log 2 x\<rfloor>"] assms by simp

lemma binade_mono_pos:
  assumes "0 < x" "x \<le> y"
  shows "binade x \<le> binade y"
proof -
  have "log 2 x \<le> log 2 y" using assms by (intro log_mono) simp_all
  then have "\<lfloor>log 2 x\<rfloor> \<le> \<lfloor>log 2 y\<rfloor>" by (rule floor_mono)
  then show ?thesis using assms by (simp add: binade_def)
qed

lemma fl_upper_pos:
  assumes "0 < x"
  shows "fl x \<le> 2 powr (of_int (binade x) + 1)"
proof -
  have "x < 2 powr (of_int \<lfloor>log 2 x\<rfloor> + 1)" using floor_log_bounds [OF assms] by simp
  also have "\<dots> \<le> 2 powr (of_int (binade x) + 1)"
    using assms by (intro powr_mono) (simp_all add: binade_def)
  finally have "x < 2 ^ 53 * ulp x" by (simp only: ulp_scale_53)
  then have "x / ulp x \<le> of_int (2 ^ 53)" by (simp add: pos_divide_le_eq)
  then have "round_half_even (x / ulp x) \<le> round_half_even (of_int (2 ^ 53))"
    by (rule round_half_even_mono)
  then have "round_half_even (x / ulp x) \<le> 2 ^ 53" by (simp only: round_half_even_of_int)
  then have "real_of_int (round_half_even (x / ulp x)) \<le> 2 ^ 53"
    by (metis of_int_le_iff of_int_numeral of_int_power)
  then have "real_of_int (round_half_even (x / ulp x)) * ulp x \<le> 2 ^ 53 * ulp x"
    by (intro mult_right_mono) (simp_all add: less_imp_le)
  moreover have "fl x = real_of_int (round_half_even (x / ulp x)) * ulp x"
    using assms by (simp add: fl_def)
  ultimately have "fl x \<le> 2 ^ 53 * ulp x" by (simp only:)
  then show ?thesis by (simp only: ulp_scale_53)
qed

lemma fl_lower_pos:
  assumes "0 < y" "- 1022 < binade y"
  shows "2 powr (of_int (binade y)) \<le> fl y"
proof -
  have b: "binade y = \<lfloor>log 2 y\<rfloor>" using assms by (simp add: binade_def max_def split: if_splits)
  have "2 powr (of_int (binade y)) \<le> y" using floor_log_bounds [OF assms(1)] b by simp
  then have "2 ^ 52 * ulp y \<le> y" by (simp only: ulp_scale_52)
  then have "of_int (2 ^ 52) \<le> y / ulp y" by (simp add: pos_le_divide_eq)
  then have "round_half_even (of_int (2 ^ 52)) \<le> round_half_even (y / ulp y)"
    by (rule round_half_even_mono)
  then have "2 ^ 52 \<le> round_half_even (y / ulp y)" by (simp only: round_half_even_of_int)
  then have "2 ^ 52 \<le> real_of_int (round_half_even (y / ulp y))"
    by (metis of_int_le_iff of_int_numeral of_int_power)
  then have "2 ^ 52 * ulp y \<le> real_of_int (round_half_even (y / ulp y)) * ulp y"
    by (intro mult_right_mono) (simp_all add: less_imp_le)
  moreover have "fl y = real_of_int (round_half_even (y / ulp y)) * ulp y"
    using assms by (simp add: fl_def)
  ultimately have "2 ^ 52 * ulp y \<le> fl y" by (simp only:)
  then show ?thesis by (simp only: ulp_scale_52)
qed

lemma fl_mono_pos:
  assumes "0 < x" "x \<le> y"
  shows "fl x \<le> fl y"
proof (cases "binade x = binade y")
  case True
  then have u: "ulp x = ulp y" by (simp add: ulp_def)
  have "x / ulp y \<le> y / ulp y" using assms by (simp add: divide_right_mono less_imp_le)
  then have "round_half_even (x / ulp y) \<le> round_half_even (y / ulp y)"
    by (rule round_half_even_mono)
  then have "real_of_int (round_half_even (x / ulp y)) * ulp y
      \<le> real_of_int (round_half_even (y / ulp y)) * ulp y"
    by (intro mult_right_mono) (simp_all add: less_imp_le)
  then show ?thesis using assms by (simp add: fl_def u)
next
  case False
  then have lt: "binade x < binade y" using binade_mono_pos [OF assms] by simp
  have "- 1022 \<le> binade x" by (simp add: binade_def)
  then have big: "- 1022 < binade y" using lt by simp
  have y: "0 < y" using assms by simp
  have "fl x \<le> 2 powr (of_int (binade x) + 1)" by (rule fl_upper_pos [OF assms(1)])
  also have "\<dots> \<le> 2 powr (of_int (binade y))" using lt by (intro powr_mono) simp_all
  also have "\<dots> \<le> fl y" by (rule fl_lower_pos [OF y big])
  finally show ?thesis .
qed

lemma fl_nonneg: "0 \<le> x \<Longrightarrow> 0 \<le> fl x"
proof -
  assume "0 \<le> x"
  then have "of_int 0 \<le> x / ulp x" by (simp add: less_imp_le)
  then have "round_half_even (of_int 0) \<le> round_half_even (x / ulp x)"
    by (rule round_half_even_mono)
  then have "0 \<le> real_of_int (round_half_even (x / ulp x))"
    by (simp only: round_half_even_of_int of_int_0_le_iff)
  then show ?thesis by (simp add: fl_def less_imp_le)
qed

lemma fl_mono:
  assumes "x \<le> y"
  shows "fl x \<le> fl y"
proof -
  consider "0 < x" | "x \<le> 0" "0 \<le> y" | "y < 0" by linarith
  then show ?thesis
  proof cases
    case 1
    then show ?thesis using assms by (rule fl_mono_pos)
  next
    case 2
    have "0 \<le> fl (- x)" using 2(1) by (intro fl_nonneg) simp
    then have "fl x \<le> 0" by (simp add: fl_uminus)
    moreover have "0 \<le> fl y" using 2(2) by (rule fl_nonneg)
    ultimately show ?thesis by linarith
  next
    case 3
    have "fl (- y) \<le> fl (- x)" using 3 assms by (intro fl_mono_pos) simp_all
    then show ?thesis by (simp add: fl_uminus)
  qed
qed

lemma binade_eqI:
  assumes "x \<noteq> 0" "- 1022 \<le> e" "2 powr (of_int e) \<le> \<bar>x\<bar>" "\<bar>x\<bar> < 2 powr (of_int e + 1)"
  shows "binade x = e"
proof -
  have "\<lfloor>log 2 \<bar>x\<bar>\<rfloor> = e"
    using floor_log_eq_powr_iff [of "\<bar>x\<bar>" 2 e] assms by simp
  then show ?thesis using assms(2) by (simp add: binade_def)
qed

lemma fl_eval_frac:
  assumes "n \<le> 1022" "1 / 2 ^ n \<le> \<bar>x\<bar>" "\<bar>x\<bar> < 2 / 2 ^ n"
  shows "fl x = of_int (round_half_even (x * 2 ^ (n + 52))) / 2 ^ (n + 52)"
proof -
  have p: "(2::real) powr (of_int (- int n)) = 1 / 2 ^ n"
    by (simp add: powr_minus powr_realpow inverse_eq_divide)
  have "(2::real) powr (of_int (- int n) + 1) = 2 powr (of_int (- int n)) * 2 powr 1"
    by (rule powr_add)
  then have p1: "(2::real) powr (of_int (- int n) + 1) = 2 / 2 ^ n"
    by (simp only: p) simp
  have x0: "x \<noteq> 0" using assms(2) by (auto simp add: field_simps)
  have b: "binade x = - int n"
  proof (rule binade_eqI [OF x0])
    show "- 1022 \<le> - int n" using assms(1) by simp
    show "2 powr real_of_int (- int n) \<le> \<bar>x\<bar>" using assms(2) by (simp only: p)
    show "\<bar>x\<bar> < 2 powr (real_of_int (- int n) + 1)" using assms(3) by (simp only: p1)
  qed
  have pw: "(2::real) powr real (n + 52) = 2 ^ (n + 52)" by (rule powr_realpow) simp
  have "ulp x = 2 powr (- real (n + 52))" by (simp add: ulp_def b)
  also have "\<dots> = inverse (2 powr real (n + 52))" by (rule powr_minus)
  also have "\<dots> = 1 / 2 ^ (n + 52)" by (simp only: pw inverse_eq_divide)
  finally have u: "ulp x = 1 / 2 ^ (n + 52)" .
  show ?thesis using x0 by (simp add: fl_def u)
qed

lemma fl_03: "fl (3 / 10) = 5404319552844595 / 2 ^ 54"
  using fl_eval_frac [of 2 "3 / 10"] by (simp add: round_half_even_def Let_def)

lemma fl_07: "fl (7 / 10) = 6305039478318694 / 2 ^ 53"
  using fl_eval_frac [of 1 "7 / 10"] by (simp add: round_half_even_def Let_def)

subsection \<open>The fused score\<close>

lemma pow_consts:
  "(2::real) ^ 48 = 281474976710656"
  "(2::real) ^ 53 = 9007199254740992"
  "(2::real) ^ 54 = 18014398509481984"
  by simp_all

lemma fl_error_bounds:
  assumes "\<bar>x\<bar> < 2"
  shows "x - 1 / 9007199254740992 \<le> fl x \<and> fl x \<le> x + 1 / 9007199254740992"
  using fl_error_small [OF assms] unfolding pow_consts by linarith

lemma fused_positive:
  "0 < a \<Longrightarrow> fused (fuse_scores st a)
     = fl (fl (6305039478318694 / 9007199254740992 * score st)
           + fl (5404319552844595 / 18014398509481984 * a))"
  by (simp only: fuse_scores_def fl_add_def fl_mul_def fl_07 fl_03 pow_consts if_True
      CombinedScore.simps)

lemma fused_error:
  assumes s: "0 \<le> score st" "score st \<le> 1" and a: "0 < a" "a \<le> 1"
  shows "\<bar>fused (fuse_scores st a) - (7 / 10 * score st + 3 / 10 * a)\<bar>
           \<le> 5 / 9007199254740992"
proof -
  define p where "p = fl (6305039478318694 / 9007199254740992 * score st)"
  define q where "q = fl (5404319552844595 / 18014398509481984 * a)"
  have "\<bar>6305039478318694 / 9007199254740992 * score st\<bar> < 2" using s by linarith
  then have ep: "6305039478318694 / 9007199254740992 * score st - 1 / 9007199254740992 \<le> p
      \<and> p \<le> 6305039478318694 / 9007199254740992 * score st + 1 / 9007199254740992"
    unfolding p_def by (rule fl_error_bounds)
  have "\<bar>5404319552844595 / 18014398509481984 * a\<bar> < 2" using a by linarith
  then have eq: "5404319552844595 / 18014398509481984 * a - 1 / 9007199254740992 \<le> q
      \<and> q \<le> 5404319552844595 / 18014398509481984 * a + 1 / 9007199254740992"
    unfolding q_def by (rule fl_error_bounds)
  have "\<bar>p + q\<bar> < 2" using ep eq s a by linarith
  then have er: "p + q - 1 / 9007199254740992 \<le> fl (p + q)
      \<and> fl (p + q) \<le> p + q + 1 / 9007199254740992"
    by (rule fl_error_bounds)
  have "fused (fuse_scores st a) = fl (p + q)"
    unfolding p_def q_def by (rule fused_positive [OF a(1)])
  then show ?thesis using ep eq er s a by linarith
qed

lemma fused_mono:
  assumes "0 < a" "a \<le> a'"
  shows "fused (fuse_scores st a) \<le> fused (fuse_scores st a')"
proof -
  have a': "0 < a'" using assms by simp
  have "5404319552844595 / 18014398509481984 * a \<le> 5404319552844595 / 18014398509481984 * a'"
    using assms(2) by simp
  then have "fl (5404319552844595 / 18014398509481984 * a)
      \<le> fl (5404319552844595 / 18014398509481984 * a')"
    by (rule fl_mono)
  then have "fl (fl (6305039478318694 / 9007199254740992 * score st)
               + fl (5404319552844595 / 18014398509481984 * a))
      \<le> fl (fl (6305039478318694 / 9007199254740992 * score st)
               + fl (5404319552844595 / 18014398509481984 * a'))"
    by (intro fl_mono) simp
  then show ?thesis by (simp only: fused_positive [OF assms(1)] fused_positive [OF a'])
qed

lemma fl_03_near: "fl (5404319552844595 / 18014398509481984 * (15 / 16)) = 9 / 32"
  using fl_eval_frac [of 2 "5404319552844595 / 18014398509481984 * (15 / 16)"]
  by (simp add: round_half_even_def Let_def)

lemma fl_03_next:
  "fl (5404319552844595 / 18014398509481984 * (15 / 16 + 1 / 9007199254740992)) = 9 / 32"
  using fl_eval_frac [of 2 "5404319552844595 / 18014398509481984 * (15 / 16 + 1 / 9007199254740992)"]
  by (simp add: round_half_even_def Let_def)

text \<open>
  C2 says that the fused score is never below the frame score. The positive branch of
  \<open>fuse_scores\<close> blends 0.7 of the frame score with 0.3 of the audio similarity, so a
  positive audio similarity below the frame score pulls the fused score down: frame score 1
  with audio similarity 0.5 fuses to a value below 1.
\<close>

theorem fuse_scores_audio_can_lower:
  "\<not> score \<lparr>median = 0, mean = 0, p25 = 0, p75 = 0, match_frac = 1, score = 1\<rparr>
       \<le> fused (fuse_scores
                  \<lparr>median = 0, mean = 0, p25 = 0, p75 = 0, match_frac = 1, score = 1\<rparr> (1 / 2))"
proof -
  let ?st = "\<lparr>median = 0, mean = 0, p25 = 0, p75 = 0, match_frac = 1, score = 1\<rparr>"
  have sc: "score ?st = 1" by simp
  have "\<bar>fused (fuse_scores ?st (1 / 2)) - (7 / 10 * score ?st + 3 / 10 * (1 / 2))\<bar>
          \<le> 5 / 9007199254740992"
    by (rule fused_error) simp_all
  then have "\<bar>fused (fuse_scores ?st (1 / 2)) - (7 / 10 * 1 + 3 / 10 * (1 / 2))\<bar>
          \<le> 5 / 9007199254740992"
    by (simp only: sc)
  then have "fused (fuse_scores ?st (1 / 2)) < 1" by linarith
  then show ?thesis by (simp only: sc not_le)
qed

text \<open>
  C2, amended. For a frame score in [0, 1] and an audio similarity of at most 1: a
  non-positive audio similarity leaves the fused score equal to the frame score; a positive
  one that is below the frame score by at least \<open>1 / 2 ^ 48\<close> gives a fused score strictly
  below the frame score; and one that is above the frame score by at least \<open>1 / 2 ^ 48\<close>
  gives a fused score strictly above it. Closer than that, the rounding of the blend
  decides.
\<close>

theorem fuse_scores_vs_frame_score:
  assumes "0 \<le> score st" and "score st \<le> 1" and "a \<le> 1"
  shows "(a \<le> 0 \<longrightarrow> fused (fuse_scores st a) = score st)
       \<and> (0 < a \<and> a + 1 / 2 ^ 48 \<le> score st \<longrightarrow> fused (fuse_scores st a) < score st)
       \<and> (score st + 1 / 2 ^ 48 \<le> a \<longrightarrow> score st < fused (fuse_scores st a))"
proof (intro conjI impI)
  assume "a \<le> 0"
  then show "fused (fuse_scores st a) = score st" by (simp add: fuse_scores_def)
next
  assume h: "0 < a \<and> a + 1 / 2 ^ 48 \<le> score st"
  then have "\<bar>fused (fuse_scores st a) - (7 / 10 * score st + 3 / 10 * a)\<bar>
      \<le> 5 / 9007199254740992"
    using assms by (intro fused_error) simp_all
  then show "fused (fuse_scores st a) < score st" using h unfolding pow_consts by linarith
next
  assume h: "score st + 1 / 2 ^ 48 \<le> a"
  then have "0 < a" using assms(1) by simp
  then have "\<bar>fused (fuse_scores st a) - (7 / 10 * score st + 3 / 10 * a)\<bar>
      \<le> 5 / 9007199254740992"
    using assms by (intro fused_error) simp_all
  then show "score st < fused (fuse_scores st a)" using h unfolding pow_consts by linarith
qed

theorem fuse_scores_vs_frame_score_witness:
  "fused (fuse_scores \<lparr>median = 3, mean = 3, p25 = 3, p75 = 3, match_frac = 1 / 2,
        score = 3 / 4\<rparr> (1 / 4))
     < score \<lparr>median = 3, mean = 3, p25 = 3, p75 = 3, match_frac = 1 / 2, score = 3 / 4\<rparr>
   \<and> fused (fuse_scores \<lparr>median = 3, mean = 3, p25 = 3, p75 = 3, match_frac = 1 / 2,
        score = 3 / 4\<rparr> 0)
     = score \<lparr>median = 3, mean = 3, p25 = 3, p75 = 3, match_frac = 1 / 2, score = 3 / 4\<rparr>
   \<and> score \<lparr>median = 3, mean = 3, p25 = 3, p75 = 3, match_frac = 1 / 2, score = 3 / 4\<rparr>
     < fused (fuse_scores \<lparr>median = 3, mean = 3, p25 = 3, p75 = 3, match_frac = 1 / 2,
        score = 3 / 4\<rparr> 1)"
  using
    fuse_scores_vs_frame_score
      [of "\<lparr>median = 3, mean = 3, p25 = 3, p75 = 3, match_frac = 1 / 2, score = 3 / 4\<rparr>" "1 / 4"]
    fuse_scores_vs_frame_score
      [of "\<lparr>median = 3, mean = 3, p25 = 3, p75 = 3, match_frac = 1 / 2, score = 3 / 4\<rparr>" 0]
    fuse_scores_vs_frame_score
      [of "\<lparr>median = 3, mean = 3, p25 = 3, p75 = 3, match_frac = 1 / 2, score = 3 / 4\<rparr>" 1]
  by simp

text \<open>
  C3 says that the fused score strictly increases with a positive audio similarity. In
  double precision the audio similarity 15/16 and the next double above it have the same
  product with 0.3, and so the same fused score, whatever the frame score.
\<close>

theorem fuse_scores_not_strictly_increasing:
  "(0::real) < 15 / 16 \<and> (15 / 16 :: real) < 15 / 16 + 1 / 2 ^ 53
   \<and> \<not> fused (fuse_scores
          \<lparr>median = 3, mean = 3, p25 = 3, p75 = 3, match_frac = 1 / 2, score = 3 / 4\<rparr>
          (15 / 16))
       < fused (fuse_scores
          \<lparr>median = 3, mean = 3, p25 = 3, p75 = 3, match_frac = 1 / 2, score = 3 / 4\<rparr>
          (15 / 16 + 1 / 2 ^ 53))"
proof -
  have a: "(0::real) < 15 / 16" and b: "(0::real) < 15 / 16 + 1 / 2 ^ 53" by simp_all
  have "fused (fuse_scores
          \<lparr>median = 3, mean = 3, p25 = 3, p75 = 3, match_frac = 1 / 2, score = 3 / 4\<rparr>
          (15 / 16))
       = fused (fuse_scores
          \<lparr>median = 3, mean = 3, p25 = 3, p75 = 3, match_frac = 1 / 2, score = 3 / 4\<rparr>
          (15 / 16 + 1 / 2 ^ 53))"
    unfolding pow_consts
    by (simp only: fused_positive [OF a [unfolded pow_consts]]
        fused_positive [OF b [unfolded pow_consts]] fl_03_near fl_03_next)
  then show ?thesis by simp
qed

text \<open>
  C3, amended. For an audio similarity \<open>a\<close> that is zero or negative the fused score is the
  frame score unchanged. For a positive \<open>a\<close> it is \<open>0.7 * score + 0.3 * a\<close> evaluated in
  double precision, which for score and \<open>a\<close> in [0, 1] is within \<open>5 / 2 ^ 53\<close> of the exact
  value. With the frame stats fixed the fused score is non-decreasing in \<open>a\<close> over the
  positive \<open>a\<close>.
\<close>

theorem fuse_scores_formula:
  "(a \<le> 0 \<longrightarrow> fused (fuse_scores st a) = score st)
   \<and> (0 < a \<and> a \<le> 1 \<and> 0 \<le> score st \<and> score st \<le> 1
        \<longrightarrow> \<bar>fused (fuse_scores st a) - (7 / 10 * score st + 3 / 10 * a)\<bar> \<le> 5 / 2 ^ 53)
   \<and> (0 < a \<and> a \<le> a' \<longrightarrow> fused (fuse_scores st a) \<le> fused (fuse_scores st a'))
   \<and> frames (fuse_scores st a) = st \<and> audio (fuse_scores st a) = a"
proof (intro conjI impI)
  assume "a \<le> 0"
  then show "fused (fuse_scores st a) = score st" by (simp add: fuse_scores_def)
next
  assume "0 < a \<and> a \<le> 1 \<and> 0 \<le> score st \<and> score st \<le> 1"
  then show "\<bar>fused (fuse_scores st a) - (7 / 10 * score st + 3 / 10 * a)\<bar> \<le> 5 / 2 ^ 53"
    unfolding pow_consts by (intro fused_error) simp_all
next
  assume "0 < a \<and> a \<le> a'"
  then show "fused (fuse_scores st a) \<le> fused (fuse_scores st a')"
    by (intro fused_mono) simp_all
next
  show "frames (fuse_scores st a) = st" by (simp add: fuse_scores_def)
  show "audio (fuse_scores st a) = a" by (simp add: fuse_scores_def)
qed

theorem fuse_scores_formula_witness:
  "\<bar>fused (fuse_scores \<lparr>median = 3, mean = 3, p25 = 3, p75 = 3, match_frac = 1 / 2,
        score = 3 / 4\<rparr> (1 / 4)) - (7 / 10 * (3 / 4) + 3 / 10 * (1 / 4))\<bar> \<le> 5 / 2 ^ 53
   \<and> fused (fuse_scores \<lparr>median = 3, mean = 3, p25 = 3, p75 = 3, match_frac = 1 / 2,
        score = 3 / 4\<rparr> (1 / 4))
     \<le> fused (fuse_scores \<lparr>median = 3, mean = 3, p25 = 3, p75 = 3, match_frac = 1 / 2,
        score = 3 / 4\<rparr> (1 / 2))
   \<and> fused (fuse_scores \<lparr>median = 3, mean = 3, p25 = 3, p75 = 3, match_frac = 1 / 2,
        score = 3 / 4\<rparr> 0) = 3 / 4"
  using
    fuse_scores_formula
      [of "1 / 4" "\<lparr>median = 3, mean = 3, p25 = 3, p75 = 3, match_frac = 1 / 2, score = 3 / 4\<rparr>"
          "1 / 2"]
    fuse_scores_formula
      [of 0 "\<lparr>median = 3, mean = 3, p25 = 3, p75 = 3, match_frac = 1 / 2, score = 3 / 4\<rparr>" 0]
  by simp

text \<open>
  A run of the model inside the margin: frame score and audio similarity both 0.8 fuse to
  the double just below 0.8.
\<close>

lemma fl_07_08:
  "fl (6305039478318694 / 9007199254740992 * (3602879701896397 / 4503599627370496))
     = 5044031582654955 / 9007199254740992"
  using fl_eval_frac
    [of 1 "6305039478318694 / 9007199254740992 * (3602879701896397 / 4503599627370496)"]
  by (simp add: round_half_even_def Let_def)

lemma fl_03_08:
  "fl (5404319552844595 / 18014398509481984 * (3602879701896397 / 4503599627370496))
     = 1080863910568919 / 4503599627370496"
  using fl_eval_frac
    [of 3 "5404319552844595 / 18014398509481984 * (3602879701896397 / 4503599627370496)"]
  by (simp add: round_half_even_def Let_def)

lemma fl_sum_08:
  "fl (5044031582654955 / 9007199254740992 + 1080863910568919 / 4503599627370496)
     = 7205759403792793 / 9007199254740992"
  using fl_eval_frac
    [of 1 "5044031582654955 / 9007199254740992 + 1080863910568919 / 4503599627370496"]
  by (simp add: round_half_even_def Let_def)

lemma fuse_scores_equal_inputs_example:
  "fused (fuse_scores
      \<lparr>median = 8, mean = 8, p25 = 8, p75 = 8, match_frac = 1,
        score = 3602879701896397 / 4503599627370496\<rparr>
      (3602879701896397 / 4503599627370496))
     = 7205759403792793 / 9007199254740992
   \<and> (7205759403792793 / 9007199254740992 :: real) < 3602879701896397 / 4503599627370496"
proof -
  have a: "(0::real) < 3602879701896397 / 4503599627370496" by simp
  show ?thesis
    by (simp only: fused_positive [OF a] FrameMatchStats.simps fl_07_08 fl_03_08 fl_sum_08)
       simp
qed

section \<open>Duration gate\<close>




text \<open>
  C10. A candidate whose reported duration is exactly zero passes the gate for every
  reference duration: zero is falsy and takes the branch of the unknown duration.
\<close>

theorem duration_ok_zero:
  "duration_ok d (Some 0)"
  by (simp add: duration_ok_def)

section \<open>Frame similarity\<close>

subsection \<open>Decoding and distances\<close>

lemma traverse_total:
  "(\<And>x. x \<in> set xs \<Longrightarrow> f x = Inr (g x)) \<Longrightarrow> traverse f xs = Inr (map g xs)"
  by (induction xs) simp_all

lemma hamming_same_length:
  "length a = length b \<Longrightarrow> hamming a b = Inr (count_differing a b)"
  by (simp add: hamming_def)

lemma count_differing_le: "length a = length b \<Longrightarrow> count_differing a b \<le> length a"
proof -
  assume "length a = length b"
  have "count_differing a b \<le> length (zip a b)"
    unfolding count_differing_def by (rule length_filter_le)
  then show ?thesis using \<open>length a = length b\<close> by simp
qed

lemma count_differing_self: "count_differing a a = 0"
  unfolding count_differing_def by (induction a) simp_all

lemma min_hamming_value:
  assumes "\<forall>x \<in> set B. length x = length ha"
  shows "min_hamming ha B = Inr (Min (set (map (count_differing ha) B)))"
proof -
  have "traverse (hamming ha) B = Inr (map (count_differing ha) B)"
    using assms by (intro traverse_total) (simp add: hamming_same_length)
  then show ?thesis by (simp add: min_hamming_def)
qed

lemma min_hamming_le:
  assumes "\<forall>x \<in> set B. length x = length ha" and "B \<noteq> []"
  shows "\<exists>d. min_hamming ha B = Inr d \<and> d \<le> length ha"
proof -
  obtain b where b: "b \<in> set B" using assms(2) by (cases B) auto
  have "Min (set (map (count_differing ha) B)) \<le> count_differing ha b"
    using b by (intro Min_le) auto
  also have "\<dots> \<le> length ha" using assms(1) b by (simp add: count_differing_le)
  finally show ?thesis using min_hamming_value [OF assms(1)] by simp
qed

lemma min_hamming_member:
  assumes "\<forall>x \<in> set B. length x = length ha" and "ha \<in> set B"
  shows "min_hamming ha B = Inr 0"
proof -
  have "Min (set (map (count_differing ha) B)) \<le> count_differing ha ha"
    using assms(2) by (intro Min_le) auto
  then have "Min (set (map (count_differing ha) B)) = 0" by (simp add: count_differing_self)
  then show ?thesis using min_hamming_value [OF assms(1)] by simp
qed

subsection \<open>Bounds on the numpy reductions\<close>

lemma sort_nth_bounds:
  fixes xs :: "real list"
  assumes "\<forall>x \<in> set xs. L \<le> x \<and> x \<le> H" and "i < length xs"
  shows "L \<le> sort xs ! i \<and> sort xs ! i \<le> H"
proof -
  have "sort xs ! i \<in> set (sort xs)" using assms(2) by (intro nth_mem) simp
  then have "sort xs ! i \<in> set xs" by simp
  then show ?thesis using assms(1) by blast
qed

lemma np_median_bounds:
  assumes "\<forall>x \<in> set xs. L \<le> x \<and> x \<le> H" and "xs \<noteq> []"
  shows "L \<le> np_median xs \<and> np_median xs \<le> H"
proof -
  have n: "0 < length xs" using assms(2) by simp
  have a: "L \<le> sort xs ! (length xs div 2) \<and> sort xs ! (length xs div 2) \<le> H"
    using n by (intro sort_nth_bounds [OF assms(1)]) simp
  have b: "L \<le> sort xs ! (length xs div 2 - 1) \<and> sort xs ! (length xs div 2 - 1) \<le> H"
    using n by (intro sort_nth_bounds [OF assms(1)]) arith
  show ?thesis using a b by (simp add: np_median_def Let_def)
qed

lemma sum_list_bounds:
  fixes xs :: "real list"
  assumes "\<forall>x \<in> set xs. L \<le> x \<and> x \<le> H"
  shows "L * real (length xs) \<le> sum_list xs \<and> sum_list xs \<le> H * real (length xs)"
  using assms by (induction xs) (auto simp add: algebra_simps)

lemma np_mean_bounds:
  assumes "\<forall>x \<in> set xs. L \<le> x \<and> x \<le> H" and "xs \<noteq> []"
  shows "L \<le> np_mean xs \<and> np_mean xs \<le> H"
proof -
  have n: "0 < real (length xs)" using assms(2) by simp
  from sum_list_bounds [OF assms(1)] n show ?thesis
    by (simp add: np_mean_def pos_le_divide_eq pos_divide_le_eq)
qed

lemma lerp_bounds:
  fixes u v g :: real
  assumes "L \<le> u" "u \<le> H" "L \<le> v" "v \<le> H" "0 \<le> g" "g \<le> 1"
  shows "L \<le> u + g * (v - u) \<and> u + g * (v - u) \<le> H"
proof -
  have eq: "u + g * (v - u) = (1 - g) * u + g * v" by (simp add: algebra_simps)
  have "(1 - g) * L + g * L \<le> (1 - g) * u + g * v"
    using assms by (intro add_mono mult_left_mono) simp_all
  moreover have "(1 - g) * u + g * v \<le> (1 - g) * H + g * H"
    using assms by (intro add_mono mult_left_mono) simp_all
  ultimately show ?thesis unfolding eq by (simp add: algebra_simps)
qed

lemma np_percentile_bounds:
  assumes "\<forall>x \<in> set xs. L \<le> x \<and> x \<le> H" and "xs \<noteq> []" and "0 \<le> q" and "q \<le> 100"
  shows "L \<le> np_percentile xs q \<and> np_percentile xs q \<le> H"
proof -
  define n where "n = length xs"
  define pos where "pos = q / 100 * real (n - 1)"
  define lo where "lo = nat \<lfloor>pos\<rfloor>"
  define hi where "hi = min (lo + 1) (n - 1)"
  have n: "0 < n" using assms(2) by (simp add: n_def)
  have pos0: "0 \<le> pos" using assms(3) by (simp add: pos_def)
  have "q / 100 \<le> 1" using assms(4) by simp
  then have "q / 100 * real (n - 1) \<le> 1 * real (n - 1)"
    by (intro mult_right_mono) simp_all
  then have posn: "pos \<le> real (n - 1)" by (simp add: pos_def)
  have lo_le: "real lo \<le> pos" using pos0 by (simp add: lo_def)
  have "\<lfloor>pos\<rfloor> \<le> int (n - 1)" using posn by (simp add: floor_le_iff)
  then have lo_n: "lo < n" using n by (simp add: lo_def)
  have hi_n: "hi < n" using n by (simp add: hi_def)
  have g1: "pos - real lo \<le> 1" using pos0 by (simp add: lo_def) linarith
  have a: "L \<le> sort xs ! lo \<and> sort xs ! lo \<le> H"
    using lo_n by (intro sort_nth_bounds [OF assms(1)]) (simp add: n_def)
  have b: "L \<le> sort xs ! hi \<and> sort xs ! hi \<le> H"
    using hi_n by (intro sort_nth_bounds [OF assms(1)]) (simp add: n_def)
  have "L \<le> sort xs ! lo + (pos - real lo) * (sort xs ! hi - sort xs ! lo)
        \<and> sort xs ! lo + (pos - real lo) * (sort xs ! hi - sort xs ! lo) \<le> H"
    using a b lo_le g1 by (intro lerp_bounds) simp_all
  then show ?thesis
    by (simp add: np_percentile_def Let_def n_def pos_def lo_def hi_def)
qed

lemma mean_le_bounds:
  assumes "xs \<noteq> []"
  shows "0 \<le> mean_le xs t \<and> mean_le xs t \<le> 1"
proof -
  have "length (filter (\<lambda>x. x \<le> real_of_int t) xs) \<le> length xs" by (rule length_filter_le)
  then show ?thesis using assms by (simp add: mean_le_def)
qed

lemma mean_le_all:
  assumes "xs \<noteq> []" and "\<forall>x \<in> set xs. x \<le> real_of_int t"
  shows "mean_le xs t = 1"
proof -
  have "filter (\<lambda>x. x \<le> real_of_int t) xs = xs" using assms(2) by (simp add: filter_id_conv)
  then show ?thesis using assms(1) by (simp add: mean_le_def)
qed

subsection \<open>Decoding 64-bit hash strings\<close>

lemma those_map_total:
  "list_all (\<lambda>x. f x \<noteq> None) xs \<Longrightarrow> those (map f xs) = Some (map (\<lambda>x. the (f x)) xs)"
  by (induction xs) auto

lemma length_concat_nibble: "length (concat (map nibble ds)) = 4 * length ds"
  by (induction ds) (simp_all add: nibble_def)

lemma hex_to_hash_valid:
  assumes "is_phash64 hx"
  shows "\<exists>bits. hex_to_hash hx = Inr bits \<and> length bits = 64"
proof -
  from assms have len: "length hx = 16" and ok: "list_all (\<lambda>c. hex_digit c \<noteq> None) hx"
    by (simp_all add: is_phash64_def)
  define ds where "ds = map (\<lambda>c. the (hex_digit c)) hx"
  have "those (map hex_digit hx) = Some ds"
    unfolding ds_def by (rule those_map_total [OF ok])
  then have "hex_to_hash hx = Inr (concat (map nibble ds))"
    using len by (simp add: hex_to_hash_def)
  moreover have "length (concat (map nibble ds)) = 64"
    unfolding length_concat_nibble using len by (simp add: ds_def)
  ultimately show ?thesis by blast
qed

lemma traverse_hex_valid:
  assumes "\<forall>h \<in> set hs. is_phash64 h"
  shows "\<exists>H. traverse hex_to_hash hs = Inr H \<and> length H = length hs
            \<and> (\<forall>x \<in> set H. length x = 64)"
proof -
  define g where "g h = (SOME bits. hex_to_hash h = Inr bits \<and> length bits = 64)" for h
  have g: "hex_to_hash h = Inr (g h) \<and> length (g h) = 64" if "h \<in> set hs" for h
  proof -
    have "\<exists>bits. hex_to_hash h = Inr bits \<and> length bits = 64"
      using hex_to_hash_valid assms that by blast
    then show ?thesis unfolding g_def by (rule someI_ex)
  qed
  then have "traverse hex_to_hash hs = Inr (map g hs)"
    by (intro traverse_total) simp
  moreover have "\<forall>x \<in> set (map g hs). length x = 64" using g by auto
  ultimately show ?thesis by auto
qed

subsection \<open>The stats of frame_similarity_score\<close>

lemma frame_similarity_score_dists:
  assumes va: "\<forall>h \<in> set hashes_a. is_phash64 h" and vb: "\<forall>h \<in> set hashes_b. is_phash64 h"
    and ne: "hashes_a \<noteq> []" "hashes_b \<noteq> []"
  shows "\<exists>dists. frame_similarity_score cfg hashes_a hashes_b threshold
           = Inr (frame_stats (map real dists)
                    (case threshold of Some v \<Rightarrow> v | None \<Rightarrow> hash_threshold cfg))
         \<and> dists \<noteq> [] \<and> (\<forall>d \<in> set dists. d \<le> 64)"
proof -
  obtain A where A: "traverse hex_to_hash hashes_a = Inr A" "length A = length hashes_a"
    "\<forall>x \<in> set A. length x = 64"
    using traverse_hex_valid [OF va] by blast
  obtain B where B: "traverse hex_to_hash hashes_b = Inr B" "length B = length hashes_b"
    "\<forall>x \<in> set B. length x = 64"
    using traverse_hex_valid [OF vb] by blast
  have Bne: "B \<noteq> []" using B(2) ne(2) by auto
  define g where "g ha = Min (set (map (count_differing ha) B))" for ha
  have step: "min_hamming ha B = Inr (g ha) \<and> g ha \<le> 64" if "ha \<in> set A" for ha
  proof -
    have len: "\<forall>x \<in> set B. length x = length ha" using A(3) B(3) that by simp
    have "min_hamming ha B = Inr (g ha)"
      unfolding g_def by (rule min_hamming_value [OF len])
    moreover have "g ha \<le> 64"
      using min_hamming_le [OF len Bne] calculation A(3) that by auto
    ultimately show ?thesis by simp
  qed
  then have "traverse (\<lambda>ha. min_hamming ha B) A = Inr (map g A)"
    by (intro traverse_total) simp
  then have "frame_similarity_score cfg hashes_a hashes_b threshold
      = Inr (frame_stats (map real (map g A))
               (case threshold of Some v \<Rightarrow> v | None \<Rightarrow> hash_threshold cfg))"
    using ne A(1) B(1) by (simp add: frame_similarity_score_def)
  moreover have "map g A \<noteq> []" using A(2) ne(1) by auto
  moreover have "\<forall>d \<in> set (map g A). d \<le> 64" using step by auto
  ultimately show ?thesis by blast
qed

lemma frame_similarity_score_self_dists:
  assumes va: "\<forall>h \<in> set hashes. is_phash64 h" and ne: "hashes \<noteq> []"
  shows "\<exists>dists. frame_similarity_score cfg hashes hashes threshold
           = Inr (frame_stats (map real dists)
                    (case threshold of Some v \<Rightarrow> v | None \<Rightarrow> hash_threshold cfg))
         \<and> dists \<noteq> [] \<and> (\<forall>d \<in> set dists. d = 0)"
proof -
  obtain A where A: "traverse hex_to_hash hashes = Inr A" "length A = length hashes"
    "\<forall>x \<in> set A. length x = 64"
    using traverse_hex_valid [OF va] by blast
  have step: "min_hamming ha A = Inr 0" if "ha \<in> set A" for ha
  proof -
    have len: "\<forall>x \<in> set A. length x = length ha" using A(3) that by simp
    show ?thesis by (rule min_hamming_member [OF len that])
  qed
  then have "traverse (\<lambda>ha. min_hamming ha A) A = Inr (map (\<lambda>_. 0) A)"
    by (intro traverse_total) simp
  then have "frame_similarity_score cfg hashes hashes threshold
      = Inr (frame_stats (map real (map (\<lambda>_. 0) A))
               (case threshold of Some v \<Rightarrow> v | None \<Rightarrow> hash_threshold cfg))"
    using ne A(1) by (simp add: frame_similarity_score_def)
  moreover have "map (\<lambda>_. 0::nat) A \<noteq> []" using A(2) ne by auto
  moreover have "\<forall>d \<in> set (map (\<lambda>_. 0::nat) A). d = 0" by simp
  ultimately show ?thesis by blast
qed

lemma frame_stats_bounds:
  assumes "arr \<noteq> []" and r: "\<forall>x \<in> set arr. 0 \<le> x \<and> x \<le> 64"
  shows "0 \<le> median (frame_stats arr t) \<and> median (frame_stats arr t) \<le> 64
       \<and> 0 \<le> mean (frame_stats arr t) \<and> mean (frame_stats arr t) \<le> 64
       \<and> 0 \<le> p25 (frame_stats arr t) \<and> p25 (frame_stats arr t) \<le> 64
       \<and> 0 \<le> p75 (frame_stats arr t) \<and> p75 (frame_stats arr t) \<le> 64
       \<and> 0 \<le> match_frac (frame_stats arr t) \<and> match_frac (frame_stats arr t) \<le> 1
       \<and> 0 \<le> score (frame_stats arr t) \<and> score (frame_stats arr t) \<le> 1"
proof -
  have med: "0 \<le> np_median arr \<and> np_median arr \<le> 64"
    by (rule np_median_bounds [OF r assms(1)])
  have mn: "0 \<le> np_mean arr \<and> np_mean arr \<le> 64"
    by (rule np_mean_bounds [OF r assms(1)])
  have q1: "0 \<le> np_percentile arr 25 \<and> np_percentile arr 25 \<le> 64"
    by (rule np_percentile_bounds [OF r assms(1)]) simp_all
  have q3: "0 \<le> np_percentile arr 75 \<and> np_percentile arr 75 \<le> 64"
    by (rule np_percentile_bounds [OF r assms(1)]) simp_all
  have mf: "0 \<le> mean_le arr t \<and> mean_le arr t \<le> 1"
    by (rule mean_le_bounds [OF assms(1)])
  define cl where "cl = max 0 (1 - np_median arr / 64)"
  have cl: "0 \<le> cl \<and> cl \<le> 1" using med by (simp add: cl_def)
  have sc: "0 \<le> 0.6 * mean_le arr t + 0.4 * cl \<and> 0.6 * mean_le arr t + 0.4 * cl \<le> 1"
    using mf cl by simp
  show ?thesis using med mn q1 q3 mf sc by (simp add: frame_stats_def Let_def cl_def)
qed

lemma frame_stats_zero:
  assumes "arr \<noteq> []" and z: "\<forall>x \<in> set arr. x = 0" and t: "0 \<le> t"
  shows "frame_stats arr t
           = \<lparr>median = 0, mean = 0, p25 = 0, p75 = 0, match_frac = 1, score = 1\<rparr>"
proof -
  have r: "\<forall>x \<in> set arr. (0::real) \<le> x \<and> x \<le> 0" using z by auto
  have med: "np_median arr = 0"
    using np_median_bounds [OF r assms(1)] by simp
  have mn: "np_mean arr = 0"
    using np_mean_bounds [OF r assms(1)] by simp
  have q1: "np_percentile arr 25 = 0"
    using np_percentile_bounds [OF r assms(1), of 25] by simp
  have q3: "np_percentile arr 75 = 0"
    using np_percentile_bounds [OF r assms(1), of 75] by simp
  have "\<forall>x \<in> set arr. x \<le> real_of_int t" using z t by auto
  then have mf: "mean_le arr t = 1" by (rule mean_le_all [OF assms(1)])
  show ?thesis by (simp add: frame_stats_def Let_def med mn q1 q3 mf)
qed

text \<open>
  C6. When at least one of the two hash lists is empty, \<open>frame_similarity_score\<close> returns
  the worst stats, with median, mean and both percentiles at the maximum distance 64 and
  match fraction and score at 0, and raises nothing, whatever the other list holds.
\<close>

theorem frame_similarity_score_empty:
  "hashes_a = [] \<or> hashes_b = [] \<Longrightarrow>
     frame_similarity_score cfg hashes_a hashes_b threshold
       = Inr \<lparr>median = 64, mean = 64, p25 = 64, p75 = 64, match_frac = 0, score = 0\<rparr>"
  by (simp add: frame_similarity_score_def)

theorem frame_similarity_score_empty_witness:
  "frame_similarity_score \<lparr>hash_threshold = 8\<rparr> [] [''not a hash''] None
     = Inr \<lparr>median = 64, mean = 64, p25 = 64, p75 = 64, match_frac = 0, score = 0\<rparr>
   \<and> frame_similarity_score \<lparr>hash_threshold = 8\<rparr> [''00ff00ff00ff00ff''] [] (Some 3)
     = Inr \<lparr>median = 64, mean = 64, p25 = 64, p75 = 64, match_frac = 0, score = 0\<rparr>"
  using
    frame_similarity_score_empty
      [of "[]" "[''not a hash'']" "\<lparr>hash_threshold = 8\<rparr>" None]
    frame_similarity_score_empty
      [of "[''00ff00ff00ff00ff'']" "[]" "\<lparr>hash_threshold = 8\<rparr>" "Some 3"]
  by simp

text \<open>
  C5. A non-empty list of 64-bit hash strings compared with itself under a non-negative
  threshold (given, or taken from the configuration) has median 0, match fraction 1 and
  frame score 1; mean and percentiles are 0 as well. Every hash is at distance 0 from itself,
  so every nearest-neighbour distance is 0.
\<close>

theorem frame_similarity_score_self:
  assumes "hashes \<noteq> []" and "\<forall>h \<in> set hashes. is_phash64 h"
    and "0 \<le> (case threshold of Some v \<Rightarrow> v | None \<Rightarrow> hash_threshold cfg)"
  shows "frame_similarity_score cfg hashes hashes threshold
           = Inr \<lparr>median = 0, mean = 0, p25 = 0, p75 = 0, match_frac = 1, score = 1\<rparr>"
proof -
  obtain dists where d: "frame_similarity_score cfg hashes hashes threshold
           = Inr (frame_stats (map real dists)
                    (case threshold of Some v \<Rightarrow> v | None \<Rightarrow> hash_threshold cfg))"
    "dists \<noteq> []" "\<forall>d \<in> set dists. d = 0"
    using frame_similarity_score_self_dists [OF assms(2) assms(1)] by blast
  have "map real dists \<noteq> []" using d(2) by simp
  moreover have "\<forall>x \<in> set (map real dists). x = 0" using d(3) by simp
  ultimately show ?thesis unfolding d(1) using assms(3) by (simp add: frame_stats_zero)
qed

theorem frame_similarity_score_self_witness:
  "frame_similarity_score \<lparr>hash_threshold = 8\<rparr>
      [''00ff00ff00ff00ff'', ''0123456789abcDEF'']
      [''00ff00ff00ff00ff'', ''0123456789abcDEF''] None
     = Inr \<lparr>median = 0, mean = 0, p25 = 0, p75 = 0, match_frac = 1, score = 1\<rparr>"
  using frame_similarity_score_self
    [where hashes = "[''00ff00ff00ff00ff'', ''0123456789abcDEF'']" and threshold = None
       and cfg = "\<lparr>hash_threshold = 8\<rparr>"]
  by (simp add: is_phash64_def hex_digit_def)

text \<open>
  C9. On lists of 64-bit hash strings, empty or not, and for every threshold,
  \<open>frame_similarity_score\<close> returns stats whose match fraction and score lie in [0, 1] and
  whose median, mean and percentiles lie in [0, 64].
\<close>

theorem frame_similarity_score_ranges:
  assumes "\<forall>h \<in> set hashes_a \<union> set hashes_b. is_phash64 h"
  shows "\<exists>st. frame_similarity_score cfg hashes_a hashes_b threshold = Inr st
       \<and> 0 \<le> match_frac st \<and> match_frac st \<le> 1
       \<and> 0 \<le> score st \<and> score st \<le> 1
       \<and> 0 \<le> median st \<and> median st \<le> 64
       \<and> 0 \<le> mean st \<and> mean st \<le> 64
       \<and> 0 \<le> p25 st \<and> p25 st \<le> 64
       \<and> 0 \<le> p75 st \<and> p75 st \<le> 64"
proof (cases "hashes_a = [] \<or> hashes_b = []")
  case True
  then show ?thesis by (simp add: frame_similarity_score_def)
next
  case False
  have va: "\<forall>h \<in> set hashes_a. is_phash64 h" and vb: "\<forall>h \<in> set hashes_b. is_phash64 h"
    using assms by simp_all
  from False have ne: "hashes_a \<noteq> []" "hashes_b \<noteq> []" by simp_all
  obtain dists where d: "frame_similarity_score cfg hashes_a hashes_b threshold
           = Inr (frame_stats (map real dists)
                    (case threshold of Some v \<Rightarrow> v | None \<Rightarrow> hash_threshold cfg))"
    "dists \<noteq> []" "\<forall>d \<in> set dists. d \<le> 64"
    using frame_similarity_score_dists [OF va vb ne] by blast
  have a: "map real dists \<noteq> []" using d(2) by simp
  have b: "\<forall>x \<in> set (map real dists). 0 \<le> x \<and> x \<le> 64" using d(3) by auto
  show ?thesis unfolding d(1) using frame_stats_bounds [OF a b] by simp
qed

theorem frame_similarity_score_ranges_witness:
  "\<exists>st. frame_similarity_score \<lparr>hash_threshold = 8\<rparr>
           [''00ff00ff00ff00ff'', ''0123456789abcDEF''] [''00ff00ff00ff00fe''] (Some 0) = Inr st
       \<and> 0 \<le> match_frac st \<and> match_frac st \<le> 1
       \<and> 0 \<le> score st \<and> score st \<le> 1
       \<and> 0 \<le> median st \<and> median st \<le> 64
       \<and> 0 \<le> mean st \<and> mean st \<le> 64
       \<and> 0 \<le> p25 st \<and> p25 st \<le> 64
       \<and> 0 \<le> p75 st \<and> p75 st \<le> 64"
  using frame_similarity_score_ranges
    [where hashes_a = "[''00ff00ff00ff00ff'', ''0123456789abcDEF'']"
       and hashes_b = "[''00ff00ff00ff00fe'']" and threshold = "Some 0"
       and cfg = "\<lparr>hash_threshold = 8\<rparr>"]
  by (simp add: is_phash64_def hex_digit_def)


text \<open>A run of the model: one reference hash against a candidate one bit away and a far one.\<close>

lemma frame_similarity_score_example:
  "frame_similarity_score \<lparr>hash_threshold = 8\<rparr>
     [''00ff00ff00ff00ff''] [''00ff00ff00ff00fe'', ''ffffffffffffffff''] None
   = Inr \<lparr>median = 1, mean = 1, p25 = 1, p75 = 1, match_frac = 1,
          score = 0.6 + 0.4 * (63 / 64)\<rparr>"
  by (simp add: frame_similarity_score_def hex_to_hash_def hex_digit_def nibble_def
      min_hamming_def hamming_def count_differing_def frame_stats_def np_median_def
      np_mean_def np_percentile_def mean_le_def Let_def)

section \<open>Audio similarity\<close>

lemma np_dot_commute: "np_dot a b = np_dot b a"
proof -
  have "map (\<lambda>(x, y). x * y) (zip a b) = map (\<lambda>(x, y). x * y) (zip b a)"
    by (subst zip_commute) (simp add: case_prod_beta mult.commute)
  then show ?thesis by (auto simp add: np_dot_def)
qed

lemma cosine_commute: "cosine a b = cosine b a"
  by (cases "np_dot b a")
     (auto simp add: cosine_def Let_def np_dot_commute [of a b] mult.commute)

lemma cosine_same_length: "length a = length b \<Longrightarrow> \<exists>c. cosine a b = Inr c"
  by (simp add: cosine_def Let_def np_dot_def)

text \<open>
  C8. \<open>audio_similarity_score\<close> gives the same outcome for \<open>(a, b)\<close> and \<open>(b, a)\<close>; every
  value it returns lies in [0, 1]; it is 0 when a side is absent; and it returns a value for
  every two vectors of the same length, as two chroma vectors are. Two non-zero vectors of
  different lengths make \<^verbatim>\<open>np.dot\<close> raise, in either order.
\<close>

theorem audio_similarity_score_symmetric_bounded:
  "audio_similarity_score va vb = audio_similarity_score vb va
   \<and> (\<forall>r. audio_similarity_score va vb = Inr r \<longrightarrow> 0 \<le> r \<and> r \<le> 1)
   \<and> (va = None \<or> vb = None \<longrightarrow> audio_similarity_score va vb = Inr 0)
   \<and> ((\<exists>a b. va = Some a \<and> vb = Some b \<and> length a = length b)
        \<longrightarrow> (\<exists>r. audio_similarity_score va vb = Inr r))"
proof (intro conjI)
  show "audio_similarity_score va vb = audio_similarity_score vb va"
    by (auto simp add: audio_similarity_score_def cosine_commute split: option.splits sum.splits)
  show "\<forall>r. audio_similarity_score va vb = Inr r \<longrightarrow> 0 \<le> r \<and> r \<le> 1"
    by (auto simp add: audio_similarity_score_def split: option.splits sum.splits if_splits)
  show "va = None \<or> vb = None \<longrightarrow> audio_similarity_score va vb = Inr 0"
    by (auto simp add: audio_similarity_score_def split: option.splits)
  show "(\<exists>a b. va = Some a \<and> vb = Some b \<and> length a = length b)
        \<longrightarrow> (\<exists>r. audio_similarity_score va vb = Inr r)"
  proof
    assume "\<exists>a b. va = Some a \<and> vb = Some b \<and> length a = length b"
    then obtain a b where ab: "va = Some a" "vb = Some b" "length a = length b" by blast
    obtain c where "cosine a b = Inr c" using cosine_same_length [OF ab(3)] by blast
    then show "\<exists>r. audio_similarity_score va vb = Inr r"
      by (simp add: audio_similarity_score_def ab)
  qed
qed

theorem audio_similarity_score_symmetric_bounded_witness:
  "audio_similarity_score (Some [1, 0]) (Some [0, 1])
     = audio_similarity_score (Some [0, 1]) (Some [1, 0])
   \<and> audio_similarity_score (Some [1, 0]) (Some [0, 1]) = Inr 0
   \<and> audio_similarity_score None (Some [0, 1]) = Inr 0
   \<and> (\<exists>r. audio_similarity_score (Some [1, 0]) (Some [0, 1]) = Inr r)"
  using audio_similarity_score_symmetric_bounded [of "Some [1, 0]" "Some [0, 1]"]
    audio_similarity_score_symmetric_bounded [of None "Some [0, 1]"]
  by (simp add: audio_similarity_score_def cosine_def np_norm_def np_dot_def)

text \<open>Runs of the model: equal, opposite and mismatched vectors.\<close>

lemma audio_similarity_score_same:
  "audio_similarity_score (Some [1, 0]) (Some [1, 0]) = Inr 1"
  by (simp add: audio_similarity_score_def cosine_def np_norm_def np_dot_def)

lemma audio_similarity_score_opposite:
  "audio_similarity_score (Some [1, 0]) (Some [-1, 0]) = Inr 0"
  by (simp add: audio_similarity_score_def cosine_def np_norm_def np_dot_def)

lemma audio_similarity_score_length_mismatch:
  "audio_similarity_score (Some [1, 0]) (Some [1]) = Inl ValueError"
  by (simp add: audio_similarity_score_def cosine_def np_norm_def np_dot_def)

section \<open>Fingerprint cache\<close>

lemma video_to_frame_hashes_miss:
  "disk w (cache_path sig) = None \<Longrightarrow>
     video_to_frame_hashes w sig extracted = Inr (recompute_frames w sig extracted)"
  by (simp add: video_to_frame_hashes_def)

lemma video_to_frame_hashes_corrupt:
  "disk w (cache_path sig) = Some Corrupt \<Longrightarrow>
     video_to_frame_hashes w sig extracted = Inr (recompute_frames w sig extracted)"
  by (simp add: video_to_frame_hashes_def load_json_def)

lemma video_to_frame_hashes_hit:
  assumes "disk w (cache_path sig) = Some (Parsed (JObj kvs))"
    and "map_of kvs ''ver'' = Some (JStr VER)"
  shows "video_to_frame_hashes w sig extracted
           = Inr (case map_of kvs ''hashes'' of None \<Rightarrow> JArr [] | Some h \<Rightarrow> h, w)"
proof -
  have "kvs \<noteq> []" using assms(2) by auto
  then show ?thesis using assms by (simp add: video_to_frame_hashes_def load_json_def)
qed

lemma video_to_frame_hashes_version_mismatch:
  assumes "disk w (cache_path sig) = Some (Parsed (JObj kvs))"
    and "map_of kvs ''ver'' \<noteq> Some (JStr VER)"
  shows "video_to_frame_hashes w sig extracted = Inr (recompute_frames w sig extracted)"
  using assms
  by (cases "map_of kvs ''ver''")
     (auto simp add: video_to_frame_hashes_def load_json_def VER_def)

lemma recompute_frames_persists:
  "disk (snd (recompute_frames w sig extracted)) (cache_path sig)
     = Some (Parsed (JObj [(''ver'', JStr VER), (''hashes'', JArr (map JStr extracted)),
                           (''hash_size'', JNum 8)]))
   \<and> fst (recompute_frames w sig extracted) = JArr (map JStr extracted)
   \<and> extract_log (snd (recompute_frames w sig extracted)) = extract_log w @ [sig]"
  by (simp add: recompute_frames_def save_json_def Let_def)

lemma video_to_frame_hashes_second_call:
  "video_to_frame_hashes (snd (recompute_frames w sig extracted)) sig extracted'
     = Inr (JArr (map JStr extracted), snd (recompute_frames w sig extracted))"
proof -
  have "video_to_frame_hashes (snd (recompute_frames w sig extracted)) sig extracted'
          = Inr (case map_of [(''ver'', JStr VER), (''hashes'', JArr (map JStr extracted)),
                           (''hash_size'', JNum 8)] ''hashes'' of None \<Rightarrow> JArr [] | Some h \<Rightarrow> h,
                 snd (recompute_frames w sig extracted))"
    by (rule video_to_frame_hashes_hit) (simp_all add: recompute_frames_persists)
  then show ?thesis by simp
qed

lemma video_to_frame_hashes_non_object:
  assumes "disk w (cache_path sig) = Some (Parsed v)" and "truthy v" and "\<forall>kvs. v \<noteq> JObj kvs"
  shows "video_to_frame_hashes w sig extracted = Inl AttributeError"
  using assms by (cases v) (simp_all add: video_to_frame_hashes_def load_json_def)

text \<open>
  C7. A missing record, an undecodable one and a version mismatch are recomputed and
  persisted, and a record of the current version is returned as stored (lemmas above). A
  stored record that parses to a non-empty JSON value other than an object is malformed too,
  and it is not treated as a miss: \<^verbatim>\<open>data.get\<close> raises \<^verbatim>\<open>AttributeError\<close>, which
  \<open>video_to_frame_hashes\<close> does not catch.
\<close>

theorem video_to_frame_hashes_array_record_raises:
  "video_to_frame_hashes
     \<lparr>disk = [cache_path ''0123456789abcdef'' \<mapsto> Parsed (JArr [JNum 1])], extract_log = []\<rparr>
     ''0123456789abcdef'' [''00ff00ff00ff00ff'']
   = Inl AttributeError"
  by (simp add: video_to_frame_hashes_def load_json_def)

end
